theory Spec2Isabelle
  imports Main "HOL-Library.Char_ord" "HOL-Library.List_Lexorder"
begin

chapter \<open>rmassets: removing unused files from the asset folder of a Markdown document\<close>

text \<open>
  An embedding of \<open>rmassets.py\<close>: the functions \<open>find_markdown_files\<close>,
  \<open>extract_image_paths\<close>, \<open>process_markdown\<close> and \<open>main\<close> over an explicit state made of
  the file system, the lines waiting on standard input and the messages printed.
\<close>

section \<open>Text: Python strings over the code points below 256\<close>

text \<open>
  A Python \<open>str\<close> is modelled as a \<open>string\<close> whose characters are the code points
  0..255. The character predicates below are the restrictions of Python's Unicode
  predicates to that range: \<open>str.isspace\<close> (also the class \<open>\s\<close> of \<open>re\<close>),
  \<open>str.isalnum\<close> plus the underscore (the class \<open>\w\<close> of \<open>re\<close>) and
  \<open>str.lower\<close>.
\<close>

definition code :: "char \<Rightarrow> nat" where
  "code c = of_char c"

definition newline :: char where
  "newline = CHR 0x0A"

definition dquote :: char where
  "dquote = CHR 0x22"

definition squote :: char where
  "squote = CHR 0x27"

definition backslash :: char where
  "backslash = CHR 0x5C"

definition isspace :: "char \<Rightarrow> bool" where
  "isspace c = (let n = code c in
     (9 \<le> n \<and> n \<le> 13) \<or> (28 \<le> n \<and> n \<le> 32) \<or> n = 133 \<or> n = 160)"

definition isalnum :: "char \<Rightarrow> bool" where
  "isalnum c = (let n = code c in
     (48 \<le> n \<and> n \<le> 57) \<or> (65 \<le> n \<and> n \<le> 90) \<or> (97 \<le> n \<and> n \<le> 122) \<or>
     n = 170 \<or> n = 178 \<or> n = 179 \<or> n = 181 \<or> n = 185 \<or> n = 186 \<or>
     (188 \<le> n \<and> n \<le> 190) \<or> (192 \<le> n \<and> n \<le> 214) \<or> (216 \<le> n \<and> n \<le> 246) \<or>
     (248 \<le> n \<and> n \<le> 255))"

definition lower_char :: "char \<Rightarrow> char" where
  "lower_char c = (let n = code c in
     if (65 \<le> n \<and> n \<le> 90) \<or> (192 \<le> n \<and> n \<le> 222 \<and> n \<noteq> 215)
     then char_of (n + 32) else c)"

definition lower :: "string \<Rightarrow> string" where
  "lower s = map lower_char s"

definition strip :: "string \<Rightarrow> string" where
  "strip s = rev (dropWhile isspace (rev (dropWhile isspace s)))"

definition startswith :: "string \<Rightarrow> string \<Rightarrow> bool" where
  "startswith s pre = (take (length pre) s = pre)"

definition endswith :: "string \<Rightarrow> string \<Rightarrow> bool" where
  "endswith s suf = (length suf \<le> length s \<and> drop (length s - length suf) s = suf)"

text \<open>\<open>s.split()\<close>: the maximal runs of non-whitespace characters, in order.\<close>

fun split_ws :: "string \<Rightarrow> string \<Rightarrow> string list" where
  "split_ws tok [] = (if tok = [] then [] else [rev tok])"
| "split_ws tok (c # cs) =
     (if isspace c then (if tok = [] then split_ws [] cs else rev tok # split_ws [] cs)
      else split_ws (c # tok) cs)"

definition split :: "string \<Rightarrow> string list" where
  "split s = split_ws [] s"

section \<open>Exceptions\<close>

text \<open>
  The exceptions that the operations of the model raise: \<open>open\<close> and \<open>read\<close> on a
  document, \<open>os.remove\<close>, \<open>input\<close> at the end of the input, and a subscript out of range.
  All of them are subclasses of \<open>Exception\<close>, which is what the loop of \<open>main\<close> catches.
  Listing an existing directory is taken to succeed.
\<close>

datatype error =
    FileNotFoundError
  | IsADirectoryError
  | PermissionError
  | UnicodeDecodeError
  | EOFError
  | IndexError

section \<open>\<open>os.path\<close> on a POSIX platform\<close>

type_synonym path = string

text \<open>\<open>posixpath.join(a, b)\<close> for two components.\<close>

definition join :: "path \<Rightarrow> path \<Rightarrow> path" where
  "join a b =
     (if startswith b ''/'' then b
      else if a = [] \<or> endswith a ''/'' then a @ b
      else a @ ''/'' @ b)"

text \<open>\<open>posixpath.basename(p)\<close>: \<open>p[p.rfind('/') + 1:]\<close>.\<close>

definition basename :: "path \<Rightarrow> path" where
  "basename p = rev (takeWhile (\<lambda>c. c \<noteq> CHR ''/'') (rev p))"

text \<open>
  \<open>posixpath.splitext(p)\<close>: the extension starts at the last dot of the last
  component, provided a character other than a dot precedes it in that component.
\<close>

definition splitext :: "path \<Rightarrow> path \<times> path" where
  "splitext p =
     (let name = basename p;
          dir = take (length p - length name) p;
          ext = rev (takeWhile (\<lambda>c. c \<noteq> CHR ''.'') (rev name));
          stem = take (length name - length ext - 1) name
      in if CHR ''.'' \<in> set name \<and> (\<exists>c \<in> set stem. c \<noteq> CHR ''.'')
         then (dir @ stem, CHR ''.'' # ext)
         else (p, []))"

section \<open>The regular expressions of the extractor\<close>

text \<open>
  Each of the four patterns is a sequence of single-character items, some of them
  repeated greedily, with group 1 around one repeated item. \<open>Ch\<close> is one character of
  a class, \<open>Star\<close> and \<open>Plus\<close> are the greedy repetitions \<open>*\<close> and \<open>+\<close> of a class,
  \<open>Bol\<close> is \<open>^\<close> under \<open>re.MULTILINE\<close>. The flag of an item says whether it lies
  inside group 1.
\<close>

datatype atom =
    Bol
  | Ch bool "char \<Rightarrow> bool"
  | Star bool "char \<Rightarrow> bool"
  | Plus bool "char \<Rightarrow> bool"

text \<open>
  \<open>match_here\<close> is the backtracking matcher of \<open>re\<close> anchored at the current position:
  a repetition first tries to take one more character and only then to stop, so the
  match returned is the one \<open>re\<close> finds first. The arguments are the pattern, whether
  the position is at the start of a line, the text of group 1 so far (reversed) and
  the remaining input; the result is group 1, the line-start flag after the match and
  the input left.
\<close>

fun match_here :: "atom list \<Rightarrow> bool \<Rightarrow> string \<Rightarrow> string \<Rightarrow> (string \<times> bool \<times> string) option" where
  "match_here [] bol grp s = Some (rev grp, bol, s)"
| "match_here (Bol # as) bol grp s = (if bol then match_here as bol grp s else None)"
| "match_here (Ch g p # as) bol grp [] = None"
| "match_here (Ch g p # as) bol grp (c # cs) =
     (if p c then match_here as (c = newline) (if g then c # grp else grp) cs else None)"
| "match_here (Star g p # as) bol grp [] = match_here as bol grp []"
| "match_here (Star g p # as) bol grp (c # cs) =
     (if p c then
        (case match_here (Star g p # as) (c = newline) (if g then c # grp else grp) cs of
           Some r \<Rightarrow> Some r
         | None \<Rightarrow> match_here as bol grp (c # cs))
      else match_here as bol grp (c # cs))"
| "match_here (Plus g p # as) bol grp [] = None"
| "match_here (Plus g p # as) bol grp (c # cs) =
     (if p c then match_here (Star g p # as) (c = newline) (if g then c # grp else grp) cs
      else None)"

text \<open>
  \<open>finditer\<close>: the non-overlapping matches from left to right, as their group 1. After
  a match the scan resumes where the match ended; a match that consumed nothing makes
  the scan advance by one character.
\<close>

function finditer :: "atom list \<Rightarrow> bool \<Rightarrow> string \<Rightarrow> string list" where
  "finditer pat bol [] =
     (case match_here pat bol [] [] of Some (g, _, _) \<Rightarrow> [g] | None \<Rightarrow> [])"
| "finditer pat bol (c # cs) =
     (case match_here pat bol [] (c # cs) of
        None \<Rightarrow> finditer pat (c = newline) cs
      | Some (g, bol', rest) \<Rightarrow>
          (if length rest < length (c # cs) then g # finditer pat bol' rest
           else g # finditer pat (c = newline) cs))"
  by pat_completeness auto
termination
  by (relation "measure (\<lambda>(pat, bol, s). length s)") auto

definition lit :: "char \<Rightarrow> char \<Rightarrow> bool" where
  "lit a c = (c = a)"

text \<open>A literal letter under \<open>re.IGNORECASE\<close>.\<close>

definition lit_i :: "char \<Rightarrow> char \<Rightarrow> bool" where
  "lit_i a c = (lower_char c = lower_char a)"

definition one_of :: "string \<Rightarrow> char \<Rightarrow> bool" where
  "one_of cs c = (c \<in> set cs)"

definition none_of :: "string \<Rightarrow> char \<Rightarrow> bool" where
  "none_of cs c = (c \<notin> set cs)"

definition word_char :: "char \<Rightarrow> bool" where
  "word_char c = (isalnum c \<or> c = CHR ''_'')"

text \<open>\<^verbatim>\<open>!\[[^\]]*\]\(([^)]+)\)\<close>\<close>

definition md_image_re :: "atom list" where
  "md_image_re =
     [Ch False (lit CHR ''!''), Ch False (lit CHR ''[''), Star False (none_of '']''),
      Ch False (lit CHR '']''), Ch False (lit CHR ''(''), Plus True (none_of '')''),
      Ch False (lit CHR '')'')]"

text \<open>\<^verbatim>\<open><img[^>]+src=["']([^"']+)["']\<close> with \<open>re.IGNORECASE\<close>\<close>

definition html_img_re :: "atom list" where
  "html_img_re =
     [Ch False (lit CHR ''<''), Ch False (lit_i CHR ''i''), Ch False (lit_i CHR ''m''),
      Ch False (lit_i CHR ''g''), Plus False (none_of ''>''),
      Ch False (lit_i CHR ''s''), Ch False (lit_i CHR ''r''), Ch False (lit_i CHR ''c''),
      Ch False (lit CHR ''=''), Ch False (one_of [dquote, squote]),
      Plus True (none_of [dquote, squote]), Ch False (one_of [dquote, squote])]"

text \<open>\<^verbatim>\<open>^\s*\[[^\]]+\]:\s*(\S+)\<close> with \<open>re.MULTILINE\<close>\<close>

definition ref_def_re :: "atom list" where
  "ref_def_re =
     [Bol, Star False isspace, Ch False (lit CHR ''[''), Plus False (none_of '']''),
      Ch False (lit CHR '']''), Ch False (lit CHR '':''), Star False isspace,
      Plus True (\<lambda>c. \<not> isspace c)]"

text \<open>\<^verbatim>\<open>[\w\-./\\]+\.assets[/\\]([\w.\- %()+,]+)\)\<close>\<close>

definition asset_like_re :: "atom list" where
  "asset_like_re =
     [Plus False (\<lambda>c. word_char c \<or> one_of (''-./'' @ [backslash]) c),
      Ch False (lit CHR ''.''), Ch False (lit CHR ''a''), Ch False (lit CHR ''s''),
      Ch False (lit CHR ''s''), Ch False (lit CHR ''e''), Ch False (lit CHR ''t''),
      Ch False (lit CHR ''s''), Ch False (one_of (''/'' @ [backslash])),
      Plus True (\<lambda>c. word_char c \<or> one_of ''.- %()+,'' c),
      Ch False (lit CHR '')'')]"

section \<open>The reference extractor\<close>

text \<open>
  What the first loop of \<open>extract_image_paths\<close> does with group 1 of one match of
  \<open>md_image_re\<close>. The subscript \<open>raw.split()[0]\<close> raises \<open>IndexError\<close> on an empty list.
\<close>

definition md_image_target :: "string \<Rightarrow> error + string" where
  "md_image_target grp =
     (let raw = strip grp;
          raw = (if startswith raw ''<'' \<and> endswith raw ''>''
                 then strip (butlast (tl raw)) else raw)
      in if CHR '' '' \<in> set raw \<and>
            (count_list raw dquote < 2 \<and> count_list raw squote < 2)
         then (case split raw of [] \<Rightarrow> Inl IndexError | tok # _ \<Rightarrow> Inr (basename tok))
         else Inr (basename raw))"

fun md_image_refs :: "string list \<Rightarrow> error + string list" where
  "md_image_refs [] = Inr []"
| "md_image_refs (grp # grps) =
     (case md_image_target grp of
        Inl e \<Rightarrow> Inl e
      | Inr r \<Rightarrow> (case md_image_refs grps of Inl e \<Rightarrow> Inl e | Inr rs \<Rightarrow> Inr (r # rs)))"

definition html_img_refs :: "string \<Rightarrow> string list" where
  "html_img_refs markdown = map (\<lambda>g. basename (strip g)) (finditer html_img_re True markdown)"

definition ref_def_refs :: "string \<Rightarrow> string list" where
  "ref_def_refs markdown = map (\<lambda>g. basename (strip g)) (finditer ref_def_re True markdown)"

definition asset_like_refs :: "string \<Rightarrow> string list" where
  "asset_like_refs markdown = map basename (finditer asset_like_re True markdown)"

definition extract_image_paths :: "string \<Rightarrow> error + string set" where
  "extract_image_paths markdown =
     (case md_image_refs (finditer md_image_re True markdown) of
        Inl e \<Rightarrow> Inl e
      | Inr md \<Rightarrow>
          Inr (set (md @ html_img_refs markdown @ ref_def_refs markdown
                      @ asset_like_refs markdown) - {[]}))"

section \<open>The file system, the terminal and the state of a run\<close>

text \<open>
  The file system is a finite table from path strings to nodes. A path names a node
  literally (no normalisation, links or working directory). A file carries what
  \<open>f.read()\<close> returns for it under the encoding \<open>utf-8\<close>, or \<open>None\<close> when it cannot be
  opened or decoded, and whether \<open>os.remove\<close> succeeds on it. The entries of a
  directory \<open>d\<close> are the names \<open>n\<close>, free of \<open>/\<close>, such that \<open>join d n\<close> is in the table.
\<close>

datatype node = File "string option" bool | Dir

type_synonym filesystem = "(path \<times> node) list"

definition isdir :: "filesystem \<Rightarrow> path \<Rightarrow> bool" where
  "isdir fs p = (case map_of fs p of Some Dir \<Rightarrow> True | _ \<Rightarrow> False)"

definition isfile :: "filesystem \<Rightarrow> path \<Rightarrow> bool" where
  "isfile fs p = (case map_of fs p of Some (File _ _) \<Rightarrow> True | _ \<Rightarrow> False)"

definition entry_name :: "path \<Rightarrow> path \<Rightarrow> string option" where
  "entry_name d p =
     (let pre = (if d = [] \<or> endswith d ''/'' then d else d @ ''/'');
          name = drop (length pre) p
      in if startswith p pre \<and> name \<noteq> [] \<and> CHR ''/'' \<notin> set name then Some name else None)"

definition listdir :: "filesystem \<Rightarrow> path \<Rightarrow> string list" where
  "listdir fs d = remdups (List.map_filter (entry_name d) (map fst fs))"

definition read_text :: "filesystem \<Rightarrow> path \<Rightarrow> error + string" where
  "read_text fs p =
     (case map_of fs p of
        None \<Rightarrow> Inl FileNotFoundError
      | Some Dir \<Rightarrow> Inl IsADirectoryError
      | Some (File None _) \<Rightarrow> Inl UnicodeDecodeError
      | Some (File (Some t) _) \<Rightarrow> Inr t)"

definition os_remove :: "filesystem \<Rightarrow> path \<Rightarrow> error + filesystem" where
  "os_remove fs p =
     (case map_of fs p of
        None \<Rightarrow> Inl FileNotFoundError
      | Some Dir \<Rightarrow> Inl IsADirectoryError
      | Some (File _ False) \<Rightarrow> Inl PermissionError
      | Some (File _ True) \<Rightarrow> Inr (filter (\<lambda>(q, n). q \<noteq> p) fs))"

text \<open>What the program prints, one constructor for each \<open>print\<close> of the source.\<close>

datatype message =
    Warning path
  | NoAssetDir path path
  | NoFiles path
  | NoUnused path
  | AssetDir path
  | Referenced "string set"
  | UnusedCount nat
  | UnusedFile string
  | DryRun
  | Prompt
  | Aborted
  | Deleted path
  | FailedDelete path error
  | NoMarkdown
  | ErrorProcessing path error
  | Finished nat

record world =
  files :: filesystem
  stdin :: "string list"
  stdout :: "message list"

definition print :: "message \<Rightarrow> world \<Rightarrow> world" where
  "print m w = w\<lparr>stdout := stdout w @ [m]\<rparr>"

definition prints :: "message list \<Rightarrow> world \<Rightarrow> world" where
  "prints ms w = w\<lparr>stdout := stdout w @ ms\<rparr>"

text \<open>\<open>input(prompt)\<close>: prints the prompt, then reads a line; \<open>EOFError\<close> at end of input.\<close>

definition input :: "world \<Rightarrow> (error + string) \<times> world" where
  "input w =
     (let w' = print Prompt w
      in case stdin w' of
           [] \<Rightarrow> (Inl EOFError, w')
         | l # ls \<Rightarrow> (Inr l, w'\<lparr>stdin := ls\<rparr>))"

section \<open>File discovery\<close>

fun discover :: "path list \<Rightarrow> path list \<Rightarrow> world \<Rightarrow> path list \<times> world" where
  "discover [] results w = (results, w)"
| "discover (p # ps) results w =
     (if isdir (files w) p then
        discover ps
          (results @ map (join p) (filter (\<lambda>name. endswith (lower name) ''.md'') (listdir (files w) p))) w
      else if isfile (files w) p \<and> endswith (lower p) ''.md'' then discover ps (results @ [p]) w
      else discover ps results (print (Warning p) w))"

definition find_markdown_files :: "path list \<Rightarrow> world \<Rightarrow> path list \<times> world" where
  "find_markdown_files ps w = (case discover ps [] w of (results, w') \<Rightarrow> (sort results, w'))"

section \<open>The asset reconciler\<close>

definition asset_dir_of :: "path \<Rightarrow> path" where
  "asset_dir_of md_path = fst (splitext md_path) @ ''.assets''"

definition all_files_in :: "filesystem \<Rightarrow> path \<Rightarrow> string list" where
  "all_files_in fs asset_dir = filter (\<lambda>f. isfile fs (join asset_dir f)) (listdir fs asset_dir)"

definition unused_files :: "string list \<Rightarrow> string set \<Rightarrow> string list" where
  "unused_files all_files referenced = filter (\<lambda>f. f \<notin> referenced) all_files"

text \<open>The deletion loop, with the counter \<open>deleted\<close> as an argument.\<close>

fun delete_unused :: "path \<Rightarrow> string list \<Rightarrow> nat \<Rightarrow> world \<Rightarrow> nat \<times> world" where
  "delete_unused asset_dir [] deleted w = (deleted, w)"
| "delete_unused asset_dir (f # fs) deleted w =
     (let fp = join asset_dir f
      in case os_remove (files w) fp of
           Inr fs' \<Rightarrow> delete_unused asset_dir fs (deleted + 1) (print (Deleted fp) (w\<lparr>files := fs'\<rparr>))
         | Inl e \<Rightarrow> delete_unused asset_dir fs deleted (print (FailedDelete fp e) w))"

definition report :: "path \<Rightarrow> string set \<Rightarrow> string list \<Rightarrow> message list" where
  "report asset_dir referenced unused =
     [AssetDir asset_dir, Referenced referenced, UnusedCount (length unused)] @ map UnusedFile unused"

definition affirmative :: "string \<Rightarrow> bool" where
  "affirmative line = (let ans = lower (strip line) in ans = ''y'' \<or> ans = ''yes'')"

definition process_markdown :: "path \<Rightarrow> bool \<Rightarrow> bool \<Rightarrow> world \<Rightarrow> (error + nat) \<times> world" where
  "process_markdown md_path dry_run assume_yes w =
     (case read_text (files w) md_path of
        Inl e \<Rightarrow> (Inl e, w)
      | Inr text \<Rightarrow>
     (case extract_image_paths text of
        Inl e \<Rightarrow> (Inl e, w)
      | Inr referenced \<Rightarrow>
     (let asset_dir = asset_dir_of md_path in
      if \<not> isdir (files w) asset_dir then (Inr 0, print (NoAssetDir md_path asset_dir) w)
      else
     (let all_files = all_files_in (files w) asset_dir in
      if all_files = [] then (Inr 0, print (NoFiles asset_dir) w)
      else
     (let unused = unused_files all_files referenced in
      if unused = [] then (Inr 0, print (NoUnused asset_dir) w)
      else
     (let w1 = prints (report asset_dir referenced unused) w in
      if dry_run then (Inr 0, print DryRun w1)
      else if \<not> assume_yes then
        (case input w1 of
           (Inl e, w2) \<Rightarrow> (Inl e, w2)
         | (Inr line, w2) \<Rightarrow>
             if \<not> affirmative line then (Inr 0, print Aborted w2)
             else (case delete_unused asset_dir unused 0 w2 of (deleted, w3) \<Rightarrow> (Inr deleted, w3)))
      else (case delete_unused asset_dir unused 0 w1 of (deleted, w3) \<Rightarrow> (Inr deleted, w3))))))))"

section \<open>The run\<close>

record args =
  paths :: "path list"
  dry_run :: bool
  yes :: bool

text \<open>The loop of \<open>main\<close> over the documents, with \<open>total_deleted\<close> as an argument.\<close>

fun run_docs :: "path list \<Rightarrow> bool \<Rightarrow> bool \<Rightarrow> nat \<Rightarrow> world \<Rightarrow> nat \<times> world" where
  "run_docs [] dry assume total_deleted w = (total_deleted, w)"
| "run_docs (md # mds) dry assume total_deleted w =
     (case process_markdown md dry assume w of
        (Inr deleted, w') \<Rightarrow> run_docs mds dry assume (total_deleted + deleted) w'
      | (Inl e, w') \<Rightarrow> run_docs mds dry assume total_deleted (print (ErrorProcessing md e) w'))"

text \<open>\<open>main\<close> after \<open>parse_args\<close>: the exit code and the final state.\<close>

definition main :: "args \<Rightarrow> world \<Rightarrow> int \<times> world" where
  "main a w =
     (case find_markdown_files (paths a) w of
        (md_files, w1) \<Rightarrow>
          if md_files = [] then (1, print NoMarkdown w1)
          else (case run_docs md_files (dry_run a) (yes a) 0 w1 of
                  (total_deleted, w2) \<Rightarrow> (0, print (Finished total_deleted) w2)))"

section \<open>Notions used in the statements\<close>

text \<open>What one input path contributes to the result of file discovery.\<close>

definition md_entries :: "filesystem \<Rightarrow> path \<Rightarrow> path set" where
  "md_entries fs p =
     (if isdir fs p
      then {join p name | name. name \<in> set (listdir fs p) \<and> endswith (lower name) ''.md''}
      else if isfile fs p \<and> endswith (lower p) ''.md'' then {p} else {})"

text \<open>
  The exception that \<open>os.remove\<close> raises for a path, if any, and the line that the
  deletion loop prints for a file accordingly.
\<close>

definition remove_error :: "filesystem \<Rightarrow> path \<Rightarrow> error option" where
  "remove_error fs p = (case os_remove fs p of Inl e \<Rightarrow> Some e | Inr _ \<Rightarrow> None)"

definition attempt_message :: "filesystem \<Rightarrow> path \<Rightarrow> string \<Rightarrow> message" where
  "attempt_message fs asset_dir f =
     (case remove_error fs (join asset_dir f) of
        None \<Rightarrow> Deleted (join asset_dir f)
      | Some e \<Rightarrow> FailedDelete (join asset_dir f) e)"

text \<open>
  The second file system comes from the first by removing regular files: every path
  has the node it had, or had a regular file and has none.
\<close>

definition only_removed :: "filesystem \<Rightarrow> filesystem \<Rightarrow> bool" where
  "only_removed fs fs' = (\<forall>p. map_of fs' p = map_of fs p \<or> (map_of fs' p = None \<and> isfile fs p))"


section \<open>Example inputs\<close>

definition backslash_doc :: string where
  "backslash_doc = ''![x](a'' @ [backslash] @ ''b.png)''"

text \<open>
  The scenario of the documentation: \<open>a.md\<close> refers to \<open>a.assets/keep.png\<close>, and
  \<open>a.assets\<close> holds \<open>keep.png\<close> and \<open>stale.png\<close>.
\<close>

definition example_files :: filesystem where
  "example_files =
     [(''a.md'', File (Some ''![x](a.assets/keep.png)'') True),
      (''a.assets'', Dir),
      (''a.assets/keep.png'', File (Some []) True),
      (''a.assets/stale.png'', File (Some []) True)]"

definition example_world :: world where
  "example_world = \<lparr>files = example_files, stdin = [], stdout = []\<rparr>"

text \<open>A reference to \<open>Img.png\<close> beside a file named \<open>img.png\<close>.\<close>

definition case_world :: world where
  "case_world =
     \<lparr>files = [(''a.md'', File (Some ''![x](a.assets/Img.png)'') True),
               (''a.assets'', Dir),
               (''a.assets/img.png'', File (Some []) True)],
      stdin = [], stdout = []\<rparr>"

text \<open>A directory \<open>docs\<close> that holds a subdirectory named \<open>notes.md\<close>.\<close>

definition notes_world :: world where
  "notes_world =
     \<lparr>files = [(''docs'', Dir), (''docs/notes.md'', Dir), (''docs/README.MD'', File (Some []) True),
               (''docs/todo.txt'', File (Some []) True)],
      stdin = [], stdout = []\<rparr>"


text \<open>The example with one line of input waiting at the prompt.\<close>

definition answer_world :: "string \<Rightarrow> world" where
  "answer_world line = \<lparr>files = example_files, stdin = [line], stdout = []\<rparr>"

text \<open>The example with a further unused file that \<open>os.remove\<close> cannot delete.\<close>

definition locked_files :: filesystem where
  "locked_files =
     [(''a.md'', File (Some ''![x](a.assets/keep.png)'') True),
      (''a.assets'', Dir),
      (''a.assets/locked.png'', File (Some []) False),
      (''a.assets/stale.png'', File (Some []) True),
      (''a.assets/keep.png'', File (Some []) True)]"

definition locked_world :: world where
  "locked_world = \<lparr>files = locked_files, stdin = [], stdout = []\<rparr>"

section \<open>Properties of the extractor\<close>

lemma basename_no_slash: "CHR ''/'' \<notin> set (basename p)"
proof -
  have "\<forall>c \<in> set (takeWhile (\<lambda>c. c \<noteq> CHR ''/'') (rev p)). c \<noteq> CHR ''/''"
    by (auto dest: set_takeWhileD)
  then show ?thesis by (auto simp: basename_def)
qed

lemma strip_last_not_space: "strip s \<noteq> [] \<Longrightarrow> \<not> isspace (last (strip s))"
proof -
  assume ne: "strip s \<noteq> []"
  let ?r = "dropWhile isspace (rev (dropWhile isspace s))"
  from ne have r: "?r \<noteq> []" by (simp add: strip_def)
  then have "\<not> isspace (hd ?r)" by (rule hd_dropWhile)
  moreover have "last (strip s) = hd ?r" using r by (simp add: strip_def last_rev)
  ultimately show ?thesis by simp
qed

lemma split_ws_nonempty:
  "tok \<noteq> [] \<or> (\<exists>c \<in> set s. \<not> isspace c) \<Longrightarrow> split_ws tok s \<noteq> []"
  by (induction s arbitrary: tok) auto

lemma split_strip_nonempty: "strip s \<noteq> [] \<Longrightarrow> split (strip s) \<noteq> []"
proof -
  assume ne: "strip s \<noteq> []"
  then have "last (strip s) \<in> set (strip s)" by simp
  with strip_last_not_space[OF ne] show ?thesis
    unfolding split_def by (intro split_ws_nonempty) blast
qed

text \<open>The subscript \<open>raw.split()[0]\<close> never raises: \<open>raw\<close> is stripped and holds a space.\<close>

lemma md_image_target_total: "\<exists>r. md_image_target grp = Inr r \<and> CHR ''/'' \<notin> set r"
proof -
  define raw where "raw = (if startswith (strip grp) ''<'' \<and> endswith (strip grp) ''>''
                 then strip (butlast (tl (strip grp))) else strip grp)"
  have st: "\<exists>u. raw = strip u" by (auto simp: raw_def)
  show ?thesis
  proof (cases "CHR '' '' \<in> set raw \<and> (count_list raw dquote < 2 \<and> count_list raw squote < 2)")
    case True
    then have "raw \<noteq> []" by auto
    with st have "split raw \<noteq> []" using split_strip_nonempty by auto
    then obtain tok toks where "split raw = tok # toks" by (cases "split raw") auto
    with True show ?thesis
      unfolding md_image_target_def Let_def raw_def[symmetric]
      by (simp add: basename_no_slash)
  next
    case False
    then show ?thesis
      unfolding md_image_target_def Let_def raw_def[symmetric]
      by (auto simp add: basename_no_slash)
  qed
qed

lemma md_image_refs_total:
  "\<exists>rs. md_image_refs grps = Inr rs \<and> (\<forall>r \<in> set rs. CHR ''/'' \<notin> set r)"
proof (induction grps)
  case Nil
  then show ?case by simp
next
  case (Cons g grps)
  from md_image_target_total[of g] obtain r where r: "md_image_target g = Inr r" "CHR ''/'' \<notin> set r"
    by blast
  from Cons obtain rs where rs: "md_image_refs grps = Inr rs" "\<forall>r \<in> set rs. CHR ''/'' \<notin> set r"
    by blast
  from r rs show ?case by simp
qed

lemma extract_image_paths_total: "\<exists>R. extract_image_paths markdown = Inr R"
  using md_image_refs_total[of "finditer md_image_re True markdown"]
  by (auto simp: extract_image_paths_def)

text \<open>
  Claim C9, as the code has it. For every input text the extractor returns a set (it
  never raises), and every string of the set is non-empty and free of \<open>/\<close>, the one
  separator at which \<open>os.path.basename\<close> cuts on a POSIX platform. A backslash is an
  ordinary character there and can occur in an element.
\<close>

theorem extract_image_paths_basenames:
  "\<exists>R. extract_image_paths markdown = Inr R \<and> (\<forall>r \<in> R. r \<noteq> [] \<and> CHR ''/'' \<notin> set r)"
proof -
  from md_image_refs_total[of "finditer md_image_re True markdown"]
  obtain md where md: "md_image_refs (finditer md_image_re True markdown) = Inr md"
    "\<forall>r \<in> set md. CHR ''/'' \<notin> set r" by blast
  then show ?thesis
    by (auto simp: extract_image_paths_def html_img_refs_def ref_def_refs_def
        asset_like_refs_def basename_no_slash)
qed

theorem extract_image_paths_basenames_witness:
  "extract_image_paths ''![x](a.assets/keep.png)'' = Inr {''keep.png''} \<and>
   ''keep.png'' \<noteq> [] \<and> CHR ''/'' \<notin> set ''keep.png''"
proof -
  have e: "extract_image_paths ''![x](a.assets/keep.png)'' = Inr {''keep.png''}"
    by code_simp
  from extract_image_paths_basenames[of "''![x](a.assets/keep.png)''"] e
  show ?thesis by auto
qed

text \<open>
  The claim as written also excludes the backslash. The document \<open>![x](a\b.png)\<close>
  yields the reference \<open>a\b.png\<close>.
\<close>

theorem extract_image_paths_backslash:
  "extract_image_paths backslash_doc = Inr {''a'' @ [backslash] @ ''b.png''} \<and>
   backslash \<in> set (''a'' @ [backslash] @ ''b.png'')"
  by code_simp

section \<open>Properties of the file system operations\<close>

lemma map_of_remove:
  "map_of (filter (\<lambda>(q, n). q \<noteq> p) fs) q = (if q = p then None else map_of fs q)"
  by (induction fs) auto

lemma os_remove_Inr:
  "os_remove fs p = Inr fs' \<Longrightarrow>
     fs' = filter (\<lambda>(q, n). q \<noteq> p) fs \<and> (\<exists>t. map_of fs p = Some (File t True))"
  by (auto simp: os_remove_def split: option.splits node.splits bool.splits)

lemma os_remove_Inl:
  "os_remove fs p = Inl e \<Longrightarrow> \<not> (\<exists>t. map_of fs p = Some (File t True))"
  by (auto simp: os_remove_def split: option.splits node.splits bool.splits)

lemma entry_name_Some:
  assumes "entry_name d p = Some f"
  shows "p = join d f \<and> f \<noteq> [] \<and> CHR ''/'' \<notin> set f"
proof -
  define pre where "pre = (if d = [] \<or> endswith d ''/'' then d else d @ ''/'')"
  from assms have f: "f = drop (length pre) p" and sw: "startswith p pre"
    and ne: "f \<noteq> []" and ns: "CHR ''/'' \<notin> set f"
    by (auto simp: entry_name_def Let_def pre_def split: if_splits)
  from sw have "p = pre @ f" unfolding startswith_def f
    by (metis append_take_drop_id)
  moreover from ne ns have "\<not> startswith f ''/''"
    by (cases f) (auto simp: startswith_def)
  ultimately show ?thesis using ne ns by (auto simp: join_def pre_def)
qed

lemma entry_name_join:
  assumes "f \<noteq> []" "CHR ''/'' \<notin> set f"
  shows "entry_name d (join d f) = Some f"
proof -
  from assms have "\<not> startswith f ''/''"
    by (cases f) (auto simp: startswith_def)
  with assms show ?thesis
    by (auto simp: entry_name_def join_def Let_def startswith_def)
qed

lemma set_map_filter_eq:
  "set (List.map_filter g xs) = {f. \<exists>p \<in> set xs. g p = Some f}"
  by (induction xs) (auto split: option.splits)

lemma set_listdir:
  "set (listdir fs d) = {f. f \<noteq> [] \<and> CHR ''/'' \<notin> set f \<and> join d f \<in> fst ` set fs}"
proof (intro set_eqI iffI)
  fix f assume "f \<in> set (listdir fs d)"
  then obtain p where p: "p \<in> fst ` set fs" "entry_name d p = Some f"
    by (auto simp: listdir_def set_map_filter_eq)
  from entry_name_Some[OF p(2)] p(1)
  show "f \<in> {f. f \<noteq> [] \<and> CHR ''/'' \<notin> set f \<and> join d f \<in> fst ` set fs}" by simp
next
  fix f assume "f \<in> {f. f \<noteq> [] \<and> CHR ''/'' \<notin> set f \<and> join d f \<in> fst ` set fs}"
  then have f: "f \<noteq> []" "CHR ''/'' \<notin> set f" "join d f \<in> fst ` set fs" by auto
  from entry_name_join[OF f(1,2)] have "entry_name d (join d f) = Some f" .
  with f(3) have "\<exists>p \<in> set (map fst fs). entry_name d p = Some f" by force
  then show "f \<in> set (listdir fs d)"
    unfolding listdir_def set_remdups set_map_filter_eq by blast
qed

lemma distinct_listdir: "distinct (listdir fs d)"
  by (simp add: listdir_def)

lemma join_inj:
  assumes "CHR ''/'' \<notin> set f" "CHR ''/'' \<notin> set g" "f \<noteq> []" "g \<noteq> []" "join d f = join d g"
  shows "f = g"
proof -
  have "Some f = entry_name d (join d f)"
    by (rule entry_name_join[OF assms(3,1), symmetric])
  also have "\<dots> = entry_name d (join d g)" by (simp only: assms(5))
  also have "\<dots> = Some g" by (rule entry_name_join[OF assms(4,2)])
  finally show ?thesis by (simp only: option.inject)
qed

lemma isfile_iff: "isfile fs p \<longleftrightarrow> (\<exists>t r. map_of fs p = Some (File t r))"
  by (auto simp: isfile_def split: option.splits node.splits)

lemma isdir_iff: "isdir fs p \<longleftrightarrow> map_of fs p = Some Dir"
  by (auto simp: isdir_def split: option.splits node.splits)

lemma delete_unused_changes:
  "delete_unused d names n w = (n', w') \<Longrightarrow> map_of (files w') p \<noteq> map_of (files w) p \<Longrightarrow>
     p \<in> join d ` set names \<and> isfile (files w) p \<and> map_of (files w') p = None"
proof (induction names arbitrary: n w)
  case Nil
  then show ?case by simp
next
  case (Cons f names)
  show ?case
  proof (cases "os_remove (files w) (join d f)")
    case (Inl e)
    with Cons.prems have "delete_unused d names n (print (FailedDelete (join d f) e) w) = (n', w')"
      by (simp add: Let_def)
    from Cons.IH[OF this] Cons.prems(2) show ?thesis by (auto simp: print_def)
  next
    case (Inr fs')
    let ?w1 = "print (Deleted (join d f)) (w\<lparr>files := fs'\<rparr>)"
    from Inr Cons.prems have del: "delete_unused d names (n + 1) ?w1 = (n', w')"
      by (simp add: Let_def)
    from os_remove_Inr[OF Inr] have fs': "fs' = filter (\<lambda>(q, n). q \<noteq> join d f) (files w)"
      and isf: "\<exists>t. map_of (files w) (join d f) = Some (File t True)" by auto
    have m1: "map_of (files ?w1) q = (if q = join d f then None else map_of (files w) q)" for q
      by (simp add: print_def fs' map_of_remove)
    show ?thesis
    proof (cases "map_of (files w') p = map_of (files ?w1) p")
      case True
      with Cons.prems(2) m1[of p] isf show ?thesis
        by (auto simp: isfile_iff split: if_splits)
    next
      case False
      from Cons.IH[OF del False] m1[of p] isf show ?thesis
        by (auto simp: isfile_iff split: if_splits)
    qed
  qed
qed

section \<open>The branches of \<open>process_markdown\<close>\<close>

lemma unused_nonempty_all: "unused_files A R \<noteq> [] \<Longrightarrow> A \<noteq> []"
  by (auto simp: unused_files_def)

lemma pm_read_fail:
  "read_text (files w) md = Inl e \<Longrightarrow> process_markdown md dry y w = (Inl e, w)"
  by (simp add: process_markdown_def)

lemma pm_no_dir:
  "read_text (files w) md = Inr t \<Longrightarrow> extract_image_paths t = Inr R \<Longrightarrow>
   \<not> isdir (files w) (asset_dir_of md) \<Longrightarrow>
   process_markdown md dry y w = (Inr 0, print (NoAssetDir md (asset_dir_of md)) w)"
  by (simp add: process_markdown_def)

lemma pm_no_files:
  "read_text (files w) md = Inr t \<Longrightarrow> extract_image_paths t = Inr R \<Longrightarrow>
   isdir (files w) (asset_dir_of md) \<Longrightarrow> all_files_in (files w) (asset_dir_of md) = [] \<Longrightarrow>
   process_markdown md dry y w = (Inr 0, print (NoFiles (asset_dir_of md)) w)"
  by (simp add: process_markdown_def)

lemma pm_no_unused:
  "read_text (files w) md = Inr t \<Longrightarrow> extract_image_paths t = Inr R \<Longrightarrow>
   isdir (files w) (asset_dir_of md) \<Longrightarrow> all_files_in (files w) (asset_dir_of md) \<noteq> [] \<Longrightarrow>
   unused_files (all_files_in (files w) (asset_dir_of md)) R = [] \<Longrightarrow>
   process_markdown md dry y w = (Inr 0, print (NoUnused (asset_dir_of md)) w)"
  by (simp add: process_markdown_def)

lemma pm_dry:
  "read_text (files w) md = Inr t \<Longrightarrow> extract_image_paths t = Inr R \<Longrightarrow>
   isdir (files w) (asset_dir_of md) \<Longrightarrow>
   unused_files (all_files_in (files w) (asset_dir_of md)) R = U \<Longrightarrow> U \<noteq> [] \<Longrightarrow>
   process_markdown md True y w =
     (Inr 0, print DryRun (prints (report (asset_dir_of md) R U) w))"
  using unused_nonempty_all[of "all_files_in (files w) (asset_dir_of md)" R]
  by (simp add: process_markdown_def)

lemma pm_yes:
  "read_text (files w) md = Inr t \<Longrightarrow> extract_image_paths t = Inr R \<Longrightarrow>
   isdir (files w) (asset_dir_of md) \<Longrightarrow>
   unused_files (all_files_in (files w) (asset_dir_of md)) R = U \<Longrightarrow> U \<noteq> [] \<Longrightarrow>
   process_markdown md False True w =
     (case delete_unused (asset_dir_of md) U 0 (prints (report (asset_dir_of md) R U) w) of
        (deleted, w3) \<Rightarrow> (Inr deleted, w3))"
  using unused_nonempty_all[of "all_files_in (files w) (asset_dir_of md)" R]
  by (simp add: process_markdown_def Let_def)

lemma pm_eof:
  "read_text (files w) md = Inr t \<Longrightarrow> extract_image_paths t = Inr R \<Longrightarrow>
   isdir (files w) (asset_dir_of md) \<Longrightarrow>
   unused_files (all_files_in (files w) (asset_dir_of md)) R = U \<Longrightarrow> U \<noteq> [] \<Longrightarrow>
   stdin w = [] \<Longrightarrow>
   process_markdown md False False w =
     (Inl EOFError, print Prompt (prints (report (asset_dir_of md) R U) w))"
  using unused_nonempty_all[of "all_files_in (files w) (asset_dir_of md)" R]
  by (simp add: process_markdown_def input_def print_def prints_def)

lemma pm_ask:
  "read_text (files w) md = Inr t \<Longrightarrow> extract_image_paths t = Inr R \<Longrightarrow>
   isdir (files w) (asset_dir_of md) \<Longrightarrow>
   unused_files (all_files_in (files w) (asset_dir_of md)) R = U \<Longrightarrow> U \<noteq> [] \<Longrightarrow>
   stdin w = line # rest \<Longrightarrow>
   w2 = (print Prompt (prints (report (asset_dir_of md) R U) w))\<lparr>stdin := rest\<rparr> \<Longrightarrow>
   process_markdown md False False w =
     (if affirmative line
      then (case delete_unused (asset_dir_of md) U 0 w2 of (deleted, w3) \<Rightarrow> (Inr deleted, w3))
      else (Inr 0, print Aborted w2))"
  using unused_nonempty_all[of "all_files_in (files w) (asset_dir_of md)" R]
  by (simp add: process_markdown_def input_def print_def prints_def Let_def)

lemma process_markdown_cases:
  obtains (idle) r w' where "process_markdown md dry y w = (r, w')" "files w' = files w"
      "r = Inr 0 \<or> (\<exists>e. r = Inl e)" "set (stdout w) \<subseteq> set (stdout w')"
  | (delete) t R w2 where "\<not> dry" "read_text (files w) md = Inr t"
      "extract_image_paths t = Inr R" "isdir (files w) (asset_dir_of md)"
      "unused_files (all_files_in (files w) (asset_dir_of md)) R \<noteq> []"
      "files w2 = files w"
      "process_markdown md dry y w =
        (case delete_unused (asset_dir_of md)
           (unused_files (all_files_in (files w) (asset_dir_of md)) R) 0 w2 of
           (deleted, w3) \<Rightarrow> (Inr deleted, w3))"
      "set (stdout w) \<subseteq> set (stdout w2)"
proof (cases "read_text (files w) md")
  case (Inl e)
  from pm_read_fail[OF this] have "process_markdown md dry y w = (Inl e, w)" .
  then show ?thesis by (rule idle) auto
next
  case (Inr t)
  from extract_image_paths_total obtain R where R: "extract_image_paths t = Inr R" by blast
  let ?d = "asset_dir_of md"
  let ?A = "all_files_in (files w) ?d"
  let ?U = "unused_files ?A R"
  show ?thesis
  proof (cases "isdir (files w) ?d")
    case False
    from pm_no_dir[OF Inr R False]
    have "process_markdown md dry y w = (Inr 0, print (NoAssetDir md ?d) w)" .
    then show ?thesis by (rule idle) (auto simp: print_def)
  next
    case dir: True
    show ?thesis
    proof (cases "?A = []")
      case True
      from pm_no_files[OF Inr R dir True]
      have "process_markdown md dry y w = (Inr 0, print (NoFiles ?d) w)" .
      then show ?thesis by (rule idle) (auto simp: print_def)
    next
      case A: False
      show ?thesis
      proof (cases "?U = []")
        case True
        from pm_no_unused[OF Inr R dir A True]
        have "process_markdown md dry y w = (Inr 0, print (NoUnused ?d) w)" .
        then show ?thesis by (rule idle) (auto simp: print_def)
      next
        case U: False
        show ?thesis
        proof (cases dry)
          case True
          with pm_dry[OF Inr R dir refl U]
          have "process_markdown md dry y w = (Inr 0, print DryRun (prints (report ?d R ?U) w))"
            by simp
          then show ?thesis by (rule idle) (auto simp: print_def prints_def)
        next
          case nd: False
          show ?thesis
          proof (cases y)
            case True
            with nd pm_yes[OF Inr R dir refl U]
            have "process_markdown md dry y w =
              (case delete_unused ?d ?U 0 (prints (report ?d R ?U) w) of
                 (deleted, w3) \<Rightarrow> (Inr deleted, w3))" by simp
            with nd Inr R dir U show ?thesis
              by (intro delete[of t R "prints (report ?d R ?U) w"]) (simp_all add: prints_def)
          next
            case ny: False
            show ?thesis
            proof (cases "stdin w")
              case Nil
              with nd ny pm_eof[OF Inr R dir refl U Nil]
              have "process_markdown md dry y w =
                 (Inl EOFError, print Prompt (prints (report ?d R ?U) w))" by simp
              then show ?thesis by (rule idle) (auto simp: print_def prints_def)
            next
              case (Cons line rest)
              let ?w2 = "(print Prompt (prints (report ?d R ?U) w))\<lparr>stdin := rest\<rparr>"
              from nd ny pm_ask[OF Inr R dir refl U Cons refl]
              have eq: "process_markdown md dry y w =
                 (if affirmative line
                  then (case delete_unused ?d ?U 0 ?w2 of (deleted, w3) \<Rightarrow> (Inr deleted, w3))
                  else (Inr 0, print Aborted ?w2))" by simp
              show ?thesis
              proof (cases "affirmative line")
                case True
                with eq have "process_markdown md dry y w =
                   (case delete_unused ?d ?U 0 ?w2 of (deleted, w3) \<Rightarrow> (Inr deleted, w3))"
                  by simp
                with nd Inr R dir U show ?thesis
                  by (intro delete[of t R ?w2]) (auto simp: prints_def print_def)
              next
                case False
                with eq have "process_markdown md dry y w = (Inr 0, print Aborted ?w2)"
                  by simp
                then show ?thesis by (rule idle) (auto simp: print_def prints_def)
              qed
            qed
          qed
        qed
      qed
    qed
  qed
qed

section \<open>Facts about the example\<close>

lemma ex_read: "read_text (files example_world) ''a.md'' = Inr ''![x](a.assets/keep.png)''"
  by code_simp

lemma ex_refs: "extract_image_paths ''![x](a.assets/keep.png)'' = Inr {''keep.png''}"
  by code_simp

lemma ex_dir: "isdir (files example_world) (asset_dir_of ''a.md'')"
  by code_simp

lemma ex_unused:
  "unused_files (all_files_in (files example_world) (asset_dir_of ''a.md'')) {''keep.png''} = [''stale.png'']"
  by code_simp

lemma ex_asset_dir: "asset_dir_of ''a.md'' = ''a.assets''"
  by code_simp

section \<open>Dry run\<close>

lemma discover_files: "files (snd (discover ps acc w)) = files w"
  by (induction ps acc w rule: discover.induct) (auto simp: print_def)

lemma find_markdown_files_files: "files (snd (find_markdown_files ps w)) = files w"
  using discover_files[of ps "[]" w]
  by (cases "discover ps [] w") (simp add: find_markdown_files_def)

lemma process_markdown_dry:
  "files (snd (process_markdown md True y w)) = files w \<and>
   (fst (process_markdown md True y w) = Inr 0 \<or> (\<exists>e. fst (process_markdown md True y w) = Inl e))"
  by (cases rule: process_markdown_cases[of md True y w]) auto

lemma run_docs_dry:
  "files (snd (run_docs mds True y tot w)) = files w \<and> fst (run_docs mds True y tot w) = tot"
proof (induction mds arbitrary: tot w)
  case Nil
  then show ?case by simp
next
  case (Cons md mds)
  obtain r w' where pm: "process_markdown md True y w = (r, w')" by (cases "process_markdown md True y w")
  with process_markdown_dry[of md y w] have f: "files w' = files w" and r: "r = Inr 0 \<or> (\<exists>e. r = Inl e)"
    by auto
  from r show ?case
  proof
    assume "r = Inr 0"
    with pm Cons.IH[of tot w'] f show ?thesis by simp
  next
    assume "\<exists>e. r = Inl e"
    then obtain e where "r = Inl e" ..
    with pm Cons.IH[of tot "print (ErrorProcessing md e) w'"] f show ?thesis
      by (simp add: print_def)
  qed
qed

text \<open>
  Claim C3. In dry-run mode \<open>process_markdown\<close> leaves the file system as it found it,
  so the listing of the asset directory is the same before and after, and a count it
  returns is zero, however many unused files there are. When it raises (the document
  cannot be read) it returns no count and the file system is unchanged as well. A whole
  run with \<open>--dry-run\<close> leaves the file system unchanged.
\<close>

theorem dry_run_never_mutates:
  "files (snd (process_markdown md True y w)) = files w \<and>
   (\<forall>n. fst (process_markdown md True y w) = Inr n \<longrightarrow> n = 0) \<and>
   listdir (files (snd (process_markdown md True y w))) (asset_dir_of md) =
     listdir (files w) (asset_dir_of md) \<and>
   (dry_run a \<longrightarrow> files (snd (main a w)) = files w)"
proof -
  have "files (snd (main a w)) = files w" if "dry_run a"
  proof -
    obtain mds w1 where d: "find_markdown_files (paths a) w = (mds, w1)"
      by (cases "find_markdown_files (paths a) w")
    with find_markdown_files_files[of "paths a" w] have f1: "files w1 = files w" by simp
    obtain t w2 where r: "run_docs mds True (yes a) 0 w1 = (t, w2)"
      by (cases "run_docs mds True (yes a) 0 w1")
    with run_docs_dry[of mds "yes a" 0 w1] have "files w2 = files w1" by simp
    with d r f1 that show ?thesis by (simp add: main_def print_def)
  qed
  with process_markdown_dry[of md y w] show ?thesis by auto
qed

theorem dry_run_never_mutates_witness:
  "fst (process_markdown ''a.md'' True False example_world) = Inr 0 \<and>
   files (snd (process_markdown ''a.md'' True False example_world)) = example_files \<and>
   files (snd (main \<lparr>paths = [''a.md''], dry_run = True, yes = False\<rparr> example_world)) = example_files"
proof -
  have r: "fst (process_markdown ''a.md'' True False example_world) = Inr 0"
    using pm_dry[OF ex_read ex_refs ex_dir ex_unused] by simp
  from dry_run_never_mutates[of "''a.md''" False example_world
      "\<lparr>paths = [''a.md''], dry_run = True, yes = False\<rparr>"] r
  show ?thesis by (simp add: example_world_def)
qed

text \<open>
  Claim C8. With both \<open>--dry-run\<close> and \<open>--yes\<close>, for a document whose unused list
  \<open>U\<close> is not empty, dry run wins: the call prints the report and the dry-run notice,
  returns zero, and changes neither the file system nor the pending input; no prompt is
  among the messages.
\<close>

theorem dry_run_precedes_assume_yes:
  assumes "read_text (files w) md = Inr t" and "extract_image_paths t = Inr R"
    and "isdir (files w) (asset_dir_of md)"
    and "unused_files (all_files_in (files w) (asset_dir_of md)) R = U" and "U \<noteq> []"
  shows "process_markdown md True True w =
           (Inr 0, w\<lparr>stdout := stdout w @ report (asset_dir_of md) R U @ [DryRun]\<rparr>) \<and>
         Prompt \<notin> set (report (asset_dir_of md) R U @ [DryRun])"
  using pm_dry[OF assms, of True]
  by (auto simp: print_def prints_def report_def)

theorem dry_run_precedes_assume_yes_witness:
  "process_markdown ''a.md'' True True example_world =
     (Inr 0, example_world\<lparr>stdout :=
        [AssetDir ''a.assets'', Referenced {''keep.png''}, UnusedCount 1,
         UnusedFile ''stale.png'', DryRun]\<rparr>)"
  using dry_run_precedes_assume_yes[OF ex_read ex_refs ex_dir ex_unused]
  by (simp add: report_def ex_asset_dir example_world_def)

section \<open>The unused list\<close>

lemma empty_not_listed: "[] \<notin> set (all_files_in fs d)"
  by (auto simp: all_files_in_def set_listdir)

lemma case_world_run:
  "process_markdown ''a.md'' False True case_world =
     (Inr 1, \<lparr>files = [(''a.md'', File (Some ''![x](a.assets/Img.png)'') True), (''a.assets'', Dir)],
              stdin = [],
              stdout = [AssetDir ''a.assets'', Referenced {''Img.png''}, UnusedCount 1,
                        UnusedFile ''img.png'', Deleted ''a.assets/img.png'']\<rparr>)"
  by code_simp

text \<open>
  Claim C1. The extractor returns a set \<open>R\<close>; the unused list holds exactly the files of
  the asset directory that are not in \<open>R\<close>, by equality of the names as strings. So no
  name produced by one of the four patterns is in the unused list, and it is this list
  that \<open>process_markdown\<close> reports. Equality is exact: a document that refers to
  \<open>Img.png\<close> does not keep the file \<open>img.png\<close>, which a run with \<open>--yes\<close> deletes.
\<close>

theorem unused_is_set_difference:
  "\<exists>R. extract_image_paths text = Inr R \<and>
       set (unused_files (all_files_in fs d) R) = set (all_files_in fs d) - R \<and>
       (\<forall>md. md_image_refs (finditer md_image_re True text) = Inr md \<longrightarrow>
          (set md \<union> set (html_img_refs text) \<union> set (ref_def_refs text) \<union>
           set (asset_like_refs text)) \<inter> set (unused_files (all_files_in fs d) R) = {}) \<and>
       (read_text fs md_path = Inr text \<longrightarrow> d = asset_dir_of md_path \<longrightarrow> isdir fs d \<longrightarrow>
        unused_files (all_files_in fs d) R \<noteq> [] \<longrightarrow>
          process_markdown md_path True y \<lparr>files = fs, stdin = inp, stdout = out\<rparr> =
            (Inr 0, \<lparr>files = fs, stdin = inp,
                     stdout = out @ report d R (unused_files (all_files_in fs d) R) @ [DryRun]\<rparr>)) \<and>
       extract_image_paths ''![x](a.assets/Img.png)'' = Inr {''Img.png''} \<and>
       process_markdown ''a.md'' False True case_world =
         (Inr 1, \<lparr>files = [(''a.md'', File (Some ''![x](a.assets/Img.png)'') True), (''a.assets'', Dir)],
                  stdin = [],
                  stdout = [AssetDir ''a.assets'', Referenced {''Img.png''}, UnusedCount 1,
                            UnusedFile ''img.png'', Deleted ''a.assets/img.png'']\<rparr>)"
proof -
  from extract_image_paths_total obtain R where R: "extract_image_paths text = Inr R" by blast
  let ?U = "unused_files (all_files_in fs d) R"
  have a: "set ?U = set (all_files_in fs d) - R"
    by (auto simp: unused_files_def)
  have b: "(set md \<union> set (html_img_refs text) \<union> set (ref_def_refs text) \<union>
           set (asset_like_refs text)) \<inter> set ?U = {}"
    if "md_image_refs (finditer md_image_re True text) = Inr md" for md
  proof -
    from that R have "R = set (md @ html_img_refs text @ ref_def_refs text @ asset_like_refs text) - {[]}"
      by (simp add: extract_image_paths_def)
    with a empty_not_listed[of fs d] show ?thesis by auto
  qed
  have c: "process_markdown md_path True y \<lparr>files = fs, stdin = inp, stdout = out\<rparr> =
            (Inr 0, \<lparr>files = fs, stdin = inp, stdout = out @ report d R ?U @ [DryRun]\<rparr>)"
    if "read_text fs md_path = Inr text" "d = asset_dir_of md_path" "isdir fs d" "?U \<noteq> []"
    using pm_dry[of "\<lparr>files = fs, stdin = inp, stdout = out\<rparr>" md_path "text" R "?U" y] that R
    by (simp add: print_def prints_def)
  have e: "extract_image_paths ''![x](a.assets/Img.png)'' = Inr {''Img.png''}" by code_simp
  note f = case_world_run
  from R a b c e f show ?thesis by blast
qed

theorem unused_is_set_difference_witness:
  "extract_image_paths ''![x](a.assets/keep.png)'' = Inr {''keep.png''} \<and>
   set (unused_files (all_files_in example_files ''a.assets'') {''keep.png''}) = {''stale.png''} \<and>
   ''keep.png'' \<notin> set (unused_files (all_files_in example_files ''a.assets'') {''keep.png''}) \<and>
   process_markdown ''a.md'' True False example_world =
     (Inr 0, \<lparr>files = example_files, stdin = [],
              stdout = [AssetDir ''a.assets'', Referenced {''keep.png''}, UnusedCount 1,
                        UnusedFile ''stale.png'', DryRun]\<rparr>)"
proof -
  have m: "md_image_refs (finditer md_image_re True ''![x](a.assets/keep.png)'') = Inr [''keep.png'']"
    by code_simp
  have al: "set (all_files_in example_files ''a.assets'') = {''keep.png'', ''stale.png''}"
    by code_simp
  have rd: "read_text example_files ''a.md'' = Inr ''![x](a.assets/keep.png)''" by code_simp
  have dir: "isdir example_files ''a.assets''" by code_simp
  from unused_is_set_difference[of "''![x](a.assets/keep.png)''" example_files "''a.assets''"
      "''a.md''" False "[]" "[]"] ex_refs
  have 1: "set (unused_files (all_files_in example_files ''a.assets'') {''keep.png''}) =
           set (all_files_in example_files ''a.assets'') - {''keep.png''}"
    and 2: "(set [''keep.png''] \<union> set (html_img_refs ''![x](a.assets/keep.png)'') \<union>
             set (ref_def_refs ''![x](a.assets/keep.png)'') \<union>
             set (asset_like_refs ''![x](a.assets/keep.png)'')) \<inter>
            set (unused_files (all_files_in example_files ''a.assets'') {''keep.png''}) = {}"
    and 3: "unused_files (all_files_in example_files ''a.assets'') {''keep.png''} \<noteq> [] \<longrightarrow>
            process_markdown ''a.md'' True False \<lparr>files = example_files, stdin = [], stdout = []\<rparr> =
            (Inr 0, \<lparr>files = example_files, stdin = [],
                stdout = [] @ report ''a.assets'' {''keep.png''}
                   (unused_files (all_files_in example_files ''a.assets'') {''keep.png''}) @ [DryRun]\<rparr>)"
    using m rd dir ex_asset_dir by auto
  from 1 al have u: "set (unused_files (all_files_in example_files ''a.assets'') {''keep.png''}) = {''stale.png''}"
    by auto
  have ul: "unused_files (all_files_in example_files ''a.assets'') {''keep.png''} = [''stale.png'']"
    using ex_unused by (simp add: ex_asset_dir example_world_def)
  from 3 ul have 4: "process_markdown ''a.md'' True False example_world =
     (Inr 0, \<lparr>files = example_files, stdin = [],
              stdout = [AssetDir ''a.assets'', Referenced {''keep.png''}, UnusedCount 1,
                        UnusedFile ''stale.png'', DryRun]\<rparr>)"
    by (simp add: example_world_def report_def)
  from 2 have "''keep.png'' \<notin> set (unused_files (all_files_in example_files ''a.assets'') {''keep.png''})"
    by auto
  with ex_refs u 4 show ?thesis by simp
qed

section \<open>Properties of file discovery\<close>

lemma set_discover:
  "set (fst (discover ps acc w)) = set acc \<union> (\<Union>p \<in> set ps. md_entries (files w) p)"
proof (induction ps acc w rule: discover.induct)
  case (1 results w)
  then show ?case by simp
next
  case (2 p ps results w)
  show ?case
  proof (cases "isdir (files w) p")
    case True
    with 2(1)[OF True] show ?thesis by (auto simp: md_entries_def)
  next
    case nd: False
    show ?thesis
    proof (cases "isfile (files w) p \<and> endswith (lower p) ''.md''")
      case True
      with nd 2(2)[OF nd True] show ?thesis by (auto simp: md_entries_def)
    next
      case False
      with nd 2(3)[OF nd False] show ?thesis by (auto simp: md_entries_def print_def)
    qed
  qed
qed

lemma set_find_markdown_files:
  "set (fst (find_markdown_files ps w)) = (\<Union>p \<in> set ps. md_entries (files w) p)"
  using set_discover[of ps "[]" w]
  by (cases "discover ps [] w") (simp add: find_markdown_files_def)

text \<open>
  Claim C10. The result of discovery holds, for an input path that is a directory, every
  entry of it whose name ends in \<open>.md\<close> (compared in lower case), with no test that the
  entry is a regular file; the test \<open>isfile\<close> is made only on an input path that is not a
  directory. So the subdirectory \<open>docs/notes.md\<close> is in the result for the input \<open>docs\<close>.
\<close>

theorem discovery_lists_directories_unchecked:
  "set (fst (find_markdown_files ps w)) =
     (\<Union>p \<in> set ps.
        if isdir (files w) p
        then {join p name | name. name \<in> set (listdir (files w) p) \<and> endswith (lower name) ''.md''}
        else if isfile (files w) p \<and> endswith (lower p) ''.md'' then {p} else {}) \<and>
   isdir (files notes_world) ''docs/notes.md'' \<and>
   fst (find_markdown_files [''docs''] notes_world) = [''docs/README.MD'', ''docs/notes.md'']"
proof -
  have a: "isdir (files notes_world) ''docs/notes.md''" by code_simp
  have b: "fst (find_markdown_files [''docs''] notes_world) = [''docs/README.MD'', ''docs/notes.md'']"
    by code_simp
  from set_find_markdown_files[of ps w] a b show ?thesis
    by (simp add: md_entries_def)
qed

theorem discovery_lists_directories_unchecked_witness:
  "isdir (files notes_world) ''docs'' \<and> ''notes.md'' \<in> set (listdir (files notes_world) ''docs'') \<and>
   endswith (lower ''notes.md'') ''.md'' \<and> \<not> isfile (files notes_world) ''docs/notes.md'' \<and>
   ''docs/notes.md'' \<in> set (fst (find_markdown_files [''docs''] notes_world))"
proof -
  have a: "isdir (files notes_world) ''docs''" by code_simp
  have b: "''notes.md'' \<in> set (listdir (files notes_world) ''docs'')" by code_simp
  have c: "endswith (lower ''notes.md'') ''.md''" by code_simp
  have d: "\<not> isfile (files notes_world) ''docs/notes.md''" by code_simp
  have e: "join ''docs'' ''notes.md'' = ''docs/notes.md''" by code_simp
  from discovery_lists_directories_unchecked[of "[''docs'']" notes_world, THEN conjunct1] a
  have "set (fst (find_markdown_files [''docs''] notes_world)) =
     {join ''docs'' name | name. name \<in> set (listdir (files notes_world) ''docs'') \<and>
        endswith (lower name) ''.md''}" by simp
  with b c e have "''docs/notes.md'' \<in> set (fst (find_markdown_files [''docs''] notes_world))"
    by force
  with a b c d show ?thesis by simp
qed

section \<open>The exit code\<close>



section \<open>Interactive confirmation\<close>

lemma exf_read: "read_text example_files ''a.md'' = Inr ''![x](a.assets/keep.png)''"
  by code_simp

lemma exf_dir: "isdir example_files (asset_dir_of ''a.md'')"
  by code_simp

lemma exf_unused:
  "unused_files (all_files_in example_files (asset_dir_of ''a.md'')) {''keep.png''} = [''stale.png'']"
  by code_simp

text \<open>
  Claim C5, as the code has it. In interactive mode, with a non-empty unused list \<open>U\<close> and
  a line of input, the deletion loop runs if and only if the line, with leading and
  trailing whitespace removed and put in lower case, is \<open>y\<close> or \<open>yes\<close>; any other line
  prints the abort notice and returns zero with the file system unchanged.
\<close>

theorem interactive_confirmation:
  assumes "read_text (files w) md = Inr t" and "extract_image_paths t = Inr R"
    and "isdir (files w) (asset_dir_of md)"
    and "unused_files (all_files_in (files w) (asset_dir_of md)) R = U" and "U \<noteq> []"
    and "stdin w = line # rest"
  shows "process_markdown md False False w =
     (if lower (strip line) = ''y'' \<or> lower (strip line) = ''yes''
      then (case delete_unused (asset_dir_of md) U 0
                  (w\<lparr>stdout := stdout w @ report (asset_dir_of md) R U @ [Prompt], stdin := rest\<rparr>) of
              (deleted, w3) \<Rightarrow> (Inr deleted, w3))
      else (Inr 0, w\<lparr>stdout := stdout w @ report (asset_dir_of md) R U @ [Prompt, Aborted],
                       stdin := rest\<rparr>))"
  using pm_ask[OF assms refl]
  by (simp add: affirmative_def print_def prints_def Let_def)

theorem interactive_confirmation_witness:
  "process_markdown ''a.md'' False False (answer_world ''YES'') =
     (Inr 1, \<lparr>files = [(''a.md'', File (Some ''![x](a.assets/keep.png)'') True),
                       (''a.assets'', Dir), (''a.assets/keep.png'', File (Some []) True)],
              stdin = [],
              stdout = [AssetDir ''a.assets'', Referenced {''keep.png''}, UnusedCount 1,
                        UnusedFile ''stale.png'', Prompt, Deleted ''a.assets/stale.png'']\<rparr>) \<and>
   process_markdown ''a.md'' False False (answer_world ''yep'') =
     (Inr 0, \<lparr>files = example_files, stdin = [],
              stdout = [AssetDir ''a.assets'', Referenced {''keep.png''}, UnusedCount 1,
                        UnusedFile ''stale.png'', Prompt, Aborted]\<rparr>)"
proof -
  have y: "lower (strip ''YES'') = ''yes''" by code_simp
  have n: "lower (strip ''yep'') \<noteq> ''y'' \<and> lower (strip ''yep'') \<noteq> ''yes''" by code_simp
  have d: "delete_unused ''a.assets'' [''stale.png''] 0
     \<lparr>files = example_files, stdin = [],
      stdout = [AssetDir ''a.assets'', Referenced {''keep.png''}, UnusedCount 1,
                UnusedFile ''stale.png'', Prompt]\<rparr> =
     (1, \<lparr>files = [(''a.md'', File (Some ''![x](a.assets/keep.png)'') True),
                       (''a.assets'', Dir), (''a.assets/keep.png'', File (Some []) True)],
              stdin = [],
              stdout = [AssetDir ''a.assets'', Referenced {''keep.png''}, UnusedCount 1,
                        UnusedFile ''stale.png'', Prompt, Deleted ''a.assets/stale.png'']\<rparr>)"
    by code_simp
  have 1: "process_markdown ''a.md'' False False (answer_world ''YES'') = (Inr 1, snd (delete_unused ''a.assets'' [''stale.png''] 0
     \<lparr>files = example_files, stdin = [],
      stdout = [AssetDir ''a.assets'', Referenced {''keep.png''}, UnusedCount 1,
                UnusedFile ''stale.png'', Prompt]\<rparr>))"
    using interactive_confirmation[of "answer_world ''YES''" "''a.md''" "''![x](a.assets/keep.png)''"
        "{''keep.png''}" "[''stale.png'']" "''YES''" "[]"] exf_read ex_refs exf_dir exf_unused y d
    by (simp add: answer_world_def ex_asset_dir report_def)
  have 2: "process_markdown ''a.md'' False False (answer_world ''yep'') =
     (Inr 0, \<lparr>files = example_files, stdin = [],
              stdout = [AssetDir ''a.assets'', Referenced {''keep.png''}, UnusedCount 1,
                        UnusedFile ''stale.png'', Prompt, Aborted]\<rparr>)"
    using interactive_confirmation[of "answer_world ''yep''" "''a.md''" "''![x](a.assets/keep.png)''"
        "{''keep.png''}" "[''stale.png'']" "''yep''" "[]"] exf_read ex_refs exf_dir exf_unused n
    by (simp add: answer_world_def ex_asset_dir report_def)
  from 1 2 d show ?thesis by simp
qed

text \<open>
  The claim as written compares the response itself. The response \<open>y\<close> preceded by a
  space is neither \<open>y\<close> nor \<open>yes\<close> in any letter case, and the deletion proceeds.
\<close>

theorem padded_answer_accepted:
  "lower '' y'' \<noteq> ''y'' \<and> lower '' y'' \<noteq> ''yes'' \<and>
   process_markdown ''a.md'' False False (answer_world '' y'') =
     (Inr 1, \<lparr>files = [(''a.md'', File (Some ''![x](a.assets/keep.png)'') True),
                       (''a.assets'', Dir), (''a.assets/keep.png'', File (Some []) True)],
              stdin = [],
              stdout = [AssetDir ''a.assets'', Referenced {''keep.png''}, UnusedCount 1,
                        UnusedFile ''stale.png'', Prompt, Deleted ''a.assets/stale.png'']\<rparr>)"
  by code_simp

section \<open>The deletion loop\<close>

lemma remove_error_map_of:
  "map_of fs' p = map_of fs p \<Longrightarrow> remove_error fs' p = remove_error fs p"
  by (simp add: remove_error_def os_remove_def split: option.splits node.splits bool.splits)

lemma remove_error_None:
  "remove_error fs p = None \<longleftrightarrow> os_remove fs p = Inr (filter (\<lambda>(q, n). q \<noteq> p) fs)"
  by (auto simp: remove_error_def os_remove_def split: option.splits node.splits bool.splits)

lemma remove_error_Some: "remove_error fs p = Some e \<longleftrightarrow> os_remove fs p = Inl e"
  by (auto simp: remove_error_def split: sum.splits)

lemma delete_unused_result:
  assumes "distinct names" and "\<forall>f \<in> set names. f \<noteq> [] \<and> CHR ''/'' \<notin> set f"
  shows "delete_unused d names n w =
    (n + length (filter (\<lambda>f. remove_error (files w) (join d f) = None) names),
     w\<lparr>files := filter (\<lambda>(q, nd). \<not> (\<exists>f \<in> set names. q = join d f \<and> remove_error (files w) q = None)) (files w),
       stdout := stdout w @ map (attempt_message (files w) d) names\<rparr>)"
  using assms
proof (induction names arbitrary: n w)
  case Nil
  then show ?case by simp
next
  case (Cons f names)
  let ?p = "join d f"
  from Cons.prems have dn: "distinct names" and sl: "\<forall>g \<in> set names. g \<noteq> [] \<and> CHR ''/'' \<notin> set g"
    and fn: "f \<notin> set names" and f: "f \<noteq> []" "CHR ''/'' \<notin> set f" by auto
  have other: "join d g \<noteq> ?p" if "g \<in> set names" for g
    using join_inj[of g f d] that sl f fn by auto
  show ?case
  proof (cases "remove_error (files w) ?p")
    case (Some e)
    then have os: "os_remove (files w) ?p = Inl e" by (simp add: remove_error_Some)
    let ?w1 = "print (FailedDelete ?p e) w"
    have fw: "files ?w1 = files w" by (simp add: print_def)
    have filt: "filter (\<lambda>(q, nd). \<not> (\<exists>g \<in> set (f # names). q = join d g \<and> remove_error (files w) q = None)) (files w)
       = filter (\<lambda>(q, nd). \<not> (\<exists>g \<in> set names. q = join d g \<and> remove_error (files w) q = None)) (files w)"
      using Some by (intro filter_cong) auto
    from os have "delete_unused d (f # names) n w = delete_unused d names n ?w1"
      by (simp add: Let_def)
    also note Cons.IH[OF dn sl, of n ?w1]
    finally show ?thesis
      unfolding fw filt using Some
      by (simp add: print_def attempt_message_def)
  next
    case None
    define fs' where "fs' = filter (\<lambda>(q, n). q \<noteq> ?p) (files w)"
    from None have os: "os_remove (files w) ?p = Inr fs'"
      by (simp add: remove_error_None fs'_def)
    let ?w1 = "print (Deleted ?p) (w\<lparr>files := fs'\<rparr>)"
    have fw: "files ?w1 = fs'" by (simp add: print_def)
    have re: "remove_error fs' q = remove_error (files w) q" if "q \<noteq> ?p" for q
      using that unfolding fs'_def by (intro remove_error_map_of) (simp add: map_of_remove)
    have cnt: "filter (\<lambda>g. remove_error fs' (join d g) = None) names =
               filter (\<lambda>g. remove_error (files w) (join d g) = None) names"
      using other re by (intro filter_cong) auto
    have msg: "map (attempt_message fs' d) names = map (attempt_message (files w) d) names"
      using other re by (intro map_cong) (auto simp: attempt_message_def)
    have pt: "(fst x \<noteq> ?p \<and> \<not> (\<exists>g \<in> set names. fst x = join d g \<and> remove_error fs' (fst x) = None)) =
              (\<not> (\<exists>g \<in> set (f # names). fst x = join d g \<and> remove_error (files w) (fst x) = None))" for x :: "path \<times> node"
    proof (cases "fst x = ?p")
      case True
      then show ?thesis using None by auto
    next
      case False
      with re[OF False] show ?thesis by auto
    qed
    have "filter (\<lambda>x. \<not> (\<exists>g \<in> set names. fst x = join d g \<and> remove_error fs' (fst x) = None)) fs'
       = filter (\<lambda>x. fst x \<noteq> ?p \<and> \<not> (\<exists>g \<in> set names. fst x = join d g \<and> remove_error fs' (fst x) = None)) (files w)"
      unfolding fs'_def filter_filter case_prod_beta ..
    also have "\<dots> = filter (\<lambda>x. \<not> (\<exists>g \<in> set (f # names). fst x = join d g \<and> remove_error (files w) (fst x) = None)) (files w)"
      by (rule filter_cong[OF refl]) (rule pt)
    finally have filt: "filter (\<lambda>(q, nd). \<not> (\<exists>g \<in> set names. q = join d g \<and> remove_error fs' q = None)) fs'
       = filter (\<lambda>(q, nd). \<not> (\<exists>g \<in> set (f # names). q = join d g \<and> remove_error (files w) q = None)) (files w)"
      unfolding case_prod_beta .
    from os have "delete_unused d (f # names) n w = delete_unused d names (n + 1) ?w1"
      by (simp add: Let_def)
    also note Cons.IH[OF dn sl, of "n + 1" ?w1]
    finally show ?thesis
      unfolding fw cnt msg filt using None
      by (simp add: print_def attempt_message_def)
  qed
qed

lemma unused_files_names:
  "distinct (unused_files (all_files_in fs d) R) \<and>
   (\<forall>f \<in> set (unused_files (all_files_in fs d) R). f \<noteq> [] \<and> CHR ''/'' \<notin> set f)"
  by (auto simp: unused_files_def all_files_in_def distinct_listdir set_listdir)

lemma locked_read: "read_text (files locked_world) ''a.md'' = Inr ''![x](a.assets/keep.png)''"
  by code_simp

lemma locked_dir: "isdir (files locked_world) (asset_dir_of ''a.md'')"
  by code_simp

lemma locked_unused:
  "unused_files (all_files_in (files locked_world) (asset_dir_of ''a.md'')) {''keep.png''} =
     [''locked.png'', ''stale.png'']"
  by code_simp

text \<open>
  Claim C4. Let \<open>U\<close> be the unused list of a document. The deletion loop attempts every
  file of \<open>U\<close> in order and prints one line for each: \<open>Deleted\<close> when \<open>os.remove\<close>
  succeeds, \<open>FailedDelete\<close> with the exception when it raises, after which the loop goes
  on with the files that remain. The files that are gone afterwards are exactly those
  whose removal succeeds, and the count returned is their number. With \<open>--yes\<close> this is
  what \<open>process_markdown\<close> returns for a document whose unused list is not empty.
\<close>

theorem deletion_attempts_every_file:
  assumes "unused_files (all_files_in (files w) (asset_dir_of md)) R = U"
  shows "let d = asset_dir_of md;
             deleted = length (filter (\<lambda>f. remove_error (files w) (join d f) = None) U);
             remaining = filter (\<lambda>(q, nd). \<not> (\<exists>f \<in> set U. q = join d f \<and> remove_error (files w) q = None)) (files w);
             outcomes = map (attempt_message (files w) d) U
         in (\<forall>w2. files w2 = files w \<longrightarrow>
               delete_unused d U 0 w2 =
                 (deleted, w2\<lparr>files := remaining, stdout := stdout w2 @ outcomes\<rparr>)) \<and>
            (read_text (files w) md = Inr t \<longrightarrow> extract_image_paths t = Inr R \<longrightarrow>
             isdir (files w) d \<longrightarrow> U \<noteq> [] \<longrightarrow>
               process_markdown md False True w =
                 (Inr deleted, w\<lparr>files := remaining, stdout := stdout w @ report d R U @ outcomes\<rparr>))"
proof -
  let ?d = "asset_dir_of md"
  from unused_files_names[of "files w" ?d R] assms
  have dn: "distinct U" and sl: "\<forall>f \<in> set U. f \<noteq> [] \<and> CHR ''/'' \<notin> set f" by auto
  have loop: "delete_unused ?d U 0 w2 =
     (length (filter (\<lambda>f. remove_error (files w) (join ?d f) = None) U),
      w2\<lparr>files := filter (\<lambda>(q, nd). \<not> (\<exists>f \<in> set U. q = join ?d f \<and> remove_error (files w) q = None)) (files w),
         stdout := stdout w2 @ map (attempt_message (files w) ?d) U\<rparr>)"
    if "files w2 = files w" for w2
    using delete_unused_result[OF dn sl, of ?d 0 w2] that by simp
  have pm: "process_markdown md False True w =
     (Inr (length (filter (\<lambda>f. remove_error (files w) (join ?d f) = None) U)),
      w\<lparr>files := filter (\<lambda>(q, nd). \<not> (\<exists>f \<in> set U. q = join ?d f \<and> remove_error (files w) q = None)) (files w),
        stdout := stdout w @ report ?d R U @ map (attempt_message (files w) ?d) U\<rparr>)"
    if "read_text (files w) md = Inr t" "extract_image_paths t = Inr R" "isdir (files w) ?d" "U \<noteq> []"
    using pm_yes[OF that(1,2,3) assms that(4)] loop[of "prints (report ?d R U) w"]
    by (simp add: prints_def)
  from loop pm show ?thesis unfolding Let_def by blast
qed

theorem deletion_attempts_every_file_witness:
  "process_markdown ''a.md'' False True locked_world =
     (Inr 1,
      \<lparr>files = [(''a.md'', File (Some ''![x](a.assets/keep.png)'') True),
                (''a.assets'', Dir),
                (''a.assets/locked.png'', File (Some []) False),
                (''a.assets/keep.png'', File (Some []) True)],
       stdin = [],
       stdout = [AssetDir ''a.assets'', Referenced {''keep.png''}, UnusedCount 2,
                 UnusedFile ''locked.png'', UnusedFile ''stale.png'',
                 FailedDelete ''a.assets/locked.png'' PermissionError,
                 Deleted ''a.assets/stale.png'']\<rparr>)"
proof -
  have k: "length (filter (\<lambda>f. remove_error (files locked_world) (join ''a.assets'' f) = None)
              [''locked.png'', ''stale.png'']) = 1"
    by code_simp
  have r: "filter (\<lambda>(q, nd). \<not> (\<exists>f \<in> set [''locked.png'', ''stale.png'']. q = join ''a.assets'' f \<and>
              remove_error (files locked_world) q = None)) (files locked_world) =
           [(''a.md'', File (Some ''![x](a.assets/keep.png)'') True),
            (''a.assets'', Dir),
            (''a.assets/locked.png'', File (Some []) False),
            (''a.assets/keep.png'', File (Some []) True)]"
    by code_simp
  have m: "map (attempt_message (files locked_world) ''a.assets'') [''locked.png'', ''stale.png''] =
           [FailedDelete ''a.assets/locked.png'' PermissionError, Deleted ''a.assets/stale.png'']"
    by code_simp
  from deletion_attempts_every_file[OF locked_unused, of "''![x](a.assets/keep.png)''"]
    locked_read ex_refs locked_dir
  have "process_markdown ''a.md'' False True locked_world =
     (Inr (length (filter (\<lambda>f. remove_error (files locked_world) (join ''a.assets'' f) = None)
              [''locked.png'', ''stale.png''])),
      locked_world\<lparr>files := filter (\<lambda>(q, nd). \<not> (\<exists>f \<in> set [''locked.png'', ''stale.png'']. q = join ''a.assets'' f \<and>
              remove_error (files locked_world) q = None)) (files locked_world),
        stdout := stdout locked_world @ report ''a.assets'' {''keep.png''} [''locked.png'', ''stale.png''] @
           map (attempt_message (files locked_world) ''a.assets'') [''locked.png'', ''stale.png'']\<rparr>)"
    unfolding Let_def ex_asset_dir by simp
  then show ?thesis unfolding k r m by (simp add: locked_world_def report_def)
qed

section \<open>What a run changes\<close>


lemma only_removed_trans:
  "only_removed fs fs' \<Longrightarrow> only_removed fs' fs'' \<Longrightarrow> only_removed fs fs''"
  unfolding only_removed_def isfile_iff by (metis option.distinct(1))

lemma unused_subset_listdir:
  "set (unused_files (all_files_in fs d) R) \<subseteq> set (listdir fs d)"
  by (auto simp: unused_files_def all_files_in_def)

lemma process_markdown_changes:
  assumes "map_of (files (snd (process_markdown md dry y w))) p \<noteq> map_of (files w) p"
  shows "(\<exists>f \<in> set (listdir (files w) (asset_dir_of md)). p = join (asset_dir_of md) f) \<and>
         isfile (files w) p \<and> map_of (files (snd (process_markdown md dry y w))) p = None"
proof (cases rule: process_markdown_cases[of md dry y w])
  case (idle r w')
  with assms show ?thesis by simp
next
  case (delete t R w2)
  let ?d = "asset_dir_of md"
  let ?U = "unused_files (all_files_in (files w) ?d) R"
  obtain n w3 where del: "delete_unused ?d ?U 0 w2 = (n, w3)"
    by (cases "delete_unused ?d ?U 0 w2")
  with delete(7) have w3: "snd (process_markdown md dry y w) = w3" by simp
  with assms delete(6) have "map_of (files w3) p \<noteq> map_of (files w2) p" by simp
  from delete_unused_changes[OF del this] delete(6) w3 unused_subset_listdir[of "files w" ?d R]
  show ?thesis by auto
qed


lemma run_docs_changes:
  assumes "map_of (files (snd (run_docs mds dry y tot w))) p \<noteq> map_of (files w) p"
  shows "(\<exists>md \<in> set mds. \<exists>f \<in> set (listdir (files w) (asset_dir_of md)). p = join (asset_dir_of md) f) \<and>
         isfile (files w) p \<and> map_of (files (snd (run_docs mds dry y tot w))) p = None"
  using assms
proof (induction mds arbitrary: tot w)
  case Nil
  then show ?case by simp
next
  case (Cons md mds)
  obtain r w1 where pm: "process_markdown md dry y w = (r, w1)"
    by (cases "process_markdown md dry y w")
  define w1' where "w1' = (case r of Inr n \<Rightarrow> w1 | Inl e \<Rightarrow> print (ErrorProcessing md e) w1)"
  define tot' where "tot' = (case r of Inr n \<Rightarrow> tot + n | Inl e \<Rightarrow> tot)"
  have f1: "files w1' = files w1" by (simp add: w1'_def print_def split: sum.splits)
  have step: "run_docs (md # mds) dry y tot w = run_docs mds dry y tot' w1'"
    using pm by (simp add: w1'_def tot'_def split: sum.splits)
  let ?wf = "snd (run_docs mds dry y tot' w1')"
  from pm have w1: "w1 = snd (process_markdown md dry y w)" by simp
  show ?case
  proof (cases "map_of (files ?wf) p = map_of (files w1') p")
    case True
    with Cons.prems step f1 have ch: "map_of (files w1) p \<noteq> map_of (files w) p" by simp
    from process_markdown_changes[of md dry y w p] ch w1 True f1 step
    show ?thesis by auto
  next
    case False
    from Cons.IH[OF False] have
      ex: "\<exists>md' \<in> set mds. \<exists>f \<in> set (listdir (files w1) (asset_dir_of md')). p = join (asset_dir_of md') f"
      and isf: "isfile (files w1) p" and none: "map_of (files ?wf) p = None"
      using f1 by auto
    have same: "map_of (files w1) p = map_of (files w) p"
    proof (rule ccontr)
      assume "map_of (files w1) p \<noteq> map_of (files w) p"
      with process_markdown_changes[of md dry y w p] w1 have "map_of (files w1) p = None" by simp
      with isf show False by (simp add: isfile_iff)
    qed
    from ex obtain md' f where md': "md' \<in> set mds"
      and f: "f \<in> set (listdir (files w1) (asset_dir_of md'))" and p: "p = join (asset_dir_of md') f"
      by blast
    from f have "f \<noteq> []" "CHR ''/'' \<notin> set f" by (auto simp: set_listdir)
    moreover from isf same have "isfile (files w) p" by (simp add: isfile_iff)
    then have "p \<in> fst ` set (files w)"
      by (auto simp: isfile_iff dest!: map_of_SomeD intro: rev_image_eqI)
    ultimately have "f \<in> set (listdir (files w) (asset_dir_of md'))"
      using p by (simp add: set_listdir)
    with md' p isf same none step show ?thesis by (auto simp: isfile_iff)
  qed
qed

text \<open>
  Claim C2. A path whose node differs after \<open>process_markdown\<close> is an entry of the asset
  directory computed for that document; it was a regular file and is gone afterwards.
  So nothing outside that directory is deleted, no directory is deleted (every directory,
  the asset directory among them, is still a directory afterwards), and no node is
  created, moved or renamed. The same holds for a whole run, with the asset directory
  of one of the discovered documents.
\<close>

theorem reconciler_only_removes_asset_files:
  "(map_of (files (snd (process_markdown md dry y w))) p \<noteq> map_of (files w) p \<longrightarrow>
      (\<exists>f \<in> set (listdir (files w) (asset_dir_of md)). p = join (asset_dir_of md) f) \<and>
      isfile (files w) p \<and> map_of (files (snd (process_markdown md dry y w))) p = None) \<and>
   (isdir (files w) q \<longrightarrow> isdir (files (snd (process_markdown md dry y w))) q) \<and>
   (map_of (files (snd (main a w))) p \<noteq> map_of (files w) p \<longrightarrow>
      (\<exists>doc \<in> set (fst (find_markdown_files (paths a) w)).
         \<exists>f \<in> set (listdir (files w) (asset_dir_of doc)). p = join (asset_dir_of doc) f) \<and>
      isfile (files w) p \<and> map_of (files (snd (main a w))) p = None) \<and>
   (isdir (files w) q \<longrightarrow> isdir (files (snd (main a w))) q)"
proof -
  obtain found w1 where d: "find_markdown_files (paths a) w = (found, w1)"
    by (cases "find_markdown_files (paths a) w")
  with find_markdown_files_files[of "paths a" w] have f1: "files w1 = files w" by simp
  have fm: "files (snd (main a w)) = files (snd (run_docs found (dry_run a) (yes a) 0 w1))"
    using d by (cases "run_docs found (dry_run a) (yes a) 0 w1"; cases found) (simp_all add: main_def print_def)
  have m: "(\<exists>doc \<in> set found. \<exists>f \<in> set (listdir (files w) (asset_dir_of doc)). p = join (asset_dir_of doc) f) \<and>
      isfile (files w) p \<and> map_of (files (snd (main a w))) p = None"
    if "map_of (files (snd (main a w))) p \<noteq> map_of (files w) p" for p
    using run_docs_changes[of found "dry_run a" "yes a" 0 w1 p] that unfolding fm f1 by simp
  have pd: "isdir (files (snd (process_markdown md dry y w))) q" if "isdir (files w) q"
    using process_markdown_changes[of md dry y w q] that by (auto simp: isdir_iff isfile_iff)
  have md: "isdir (files (snd (main a w))) q" if "isdir (files w) q"
    using m[of q] that by (auto simp: isdir_iff isfile_iff)
  from process_markdown_changes[of md dry y w p] m[of p] pd md d show ?thesis by auto
qed

theorem reconciler_only_removes_asset_files_witness:
  "map_of (files (snd (main \<lparr>paths = [''a.md''], dry_run = False, yes = True\<rparr> example_world))) ''a.assets/stale.png'' = None \<and>
   map_of (files example_world) ''a.assets/stale.png'' = Some (File (Some []) True) \<and>
   asset_dir_of ''a.md'' = ''a.assets'' \<and> join ''a.assets'' ''stale.png'' = ''a.assets/stale.png'' \<and>
   isfile (files example_world) ''a.assets/stale.png'' \<and>
   isdir (files (snd (main \<lparr>paths = [''a.md''], dry_run = False, yes = True\<rparr> example_world))) ''a.assets''"
proof -
  let ?a = "\<lparr>paths = [''a.md''], dry_run = False, yes = True\<rparr>"
  have before: "map_of (files example_world) ''a.assets/stale.png'' = Some (File (Some []) True)"
    by code_simp
  have after: "map_of (files (snd (main ?a example_world))) ''a.assets/stale.png'' = None"
    by code_simp
  have j: "join ''a.assets'' ''stale.png'' = ''a.assets/stale.png''" by code_simp
  have dir: "isdir (files example_world) ''a.assets''" by code_simp
  from reconciler_only_removes_asset_files[of "''a.md''" False True example_world
      "''a.assets/stale.png''" "''a.assets''" ?a] before after dir
  have "isfile (files example_world) ''a.assets/stale.png''"
    and "isdir (files (snd (main ?a example_world))) ''a.assets''" by simp_all
  with before after j ex_asset_dir show ?thesis by simp
qed

section \<open>Running twice\<close>























end
